theory Spec2Isabelle
  imports Main "HOL-Library.Sublist"
begin

section \<open>Data model\<close>

text \<open>
  The module \<^verbatim>\<open>utils/antlr_grammar_gen.py\<close> drives two command-line tools.
  Everything it does is an effect: it prints, it starts processes, it deletes files and it
  exits. The effects are made explicit here as a \<open>world\<close> that every procedure takes and
  returns, together with the exception (if any) that ended the procedure.
\<close>

subsection \<open>Paths and process arguments\<close>

text \<open>
  A \<^verbatim>\<open>pathlib.Path\<close> is kept as its \<^verbatim>\<open>parts\<close>: \<^verbatim>\<open>Path('.')\<close> has no parts,
  \<^verbatim>\<open>Path('/a/b')\<close> has the parts \<^verbatim>\<open>'/'\<close>, \<^verbatim>\<open>'a'\<close>, \<^verbatim>\<open>'b'\<close>. \<open>str_path\<close> is
  \<^verbatim>\<open>str(path)\<close> of a POSIX path and \<open>child\<close> is \<^verbatim>\<open>path / name\<close> for a single name.
\<close>

type_synonym path = "string list"

fun join_parts :: "string list \<Rightarrow> string" where
  "join_parts [] = []"
| "join_parts [p] = p"
| "join_parts (p # q # ps) = p @ ''/'' @ join_parts (q # ps)"

definition str_path :: "path \<Rightarrow> string" where
  "str_path p =
     (case p of
        [] \<Rightarrow> ''.''
      | r # ps \<Rightarrow> if r = ''/'' then ''/'' @ join_parts ps else join_parts (r # ps))"

definition child :: "path \<Rightarrow> string \<Rightarrow> path" where
  "child p name = p @ [name]"

text \<open>
  The arguments handed to a process are \<^verbatim>\<open>Any\<close>: the module passes both \<^verbatim>\<open>str\<close>
  and \<^verbatim>\<open>Path\<close> objects, and the model keeps the two apart.
\<close>

datatype arg = Str string | PathArg path

record invocation =
  program :: string
  arguments :: "arg list"
  cwd :: "path option"
  echo :: "bool option"

subsection \<open>Errors, events, the file system\<close>

text \<open>
  \<^verbatim>\<open>exit(1)\<close> raises \<^verbatim>\<open>SystemExit(1)\<close>. A failing subprocess raises whatever
  \<^verbatim>\<open>process.run\<close> raises; the module never catches it. \<open>AttributeError\<close> is what a
  method call on \<^verbatim>\<open>None\<close> raises.
\<close>

datatype error = SystemExit int | CalledProcessError int | AttributeError

datatype event = Print string | Run invocation | RunOutput invocation

text \<open>
  A directory is the list of its entries in the order in which the operating system
  enumerates them. \<open>Regular\<close> stands for everything on which \<^verbatim>\<open>Path.is_file()\<close>
  answers true, with the file's content.
\<close>

datatype entry = Regular string | Directory | Special

type_synonym listing = "(string \<times> entry) list"

type_synonym filesystem = "path \<Rightarrow> listing"

record world =
  events :: "event list"
  fs :: filesystem
  current_dir :: path

text \<open>
  The modules \<^verbatim>\<open>generator_paths\<close> and \<^verbatim>\<open>process\<close> and the two external tools
  are not part of this file; what they do is a parameter of the model.
  \<open>exec\<close> is the effect of a process started by \<^verbatim>\<open>process.run\<close> on the file system and
  the exception \<^verbatim>\<open>run\<close> raises for it, if any; \<open>exec_output\<close> is what
  \<^verbatim>\<open>process.run_output\<close> returns or raises.
\<close>

record env =
  make_relative :: "path \<Rightarrow> path \<Rightarrow> path"
  grammars_package_path :: "string \<Rightarrow> path"
  exec :: "invocation \<Rightarrow> filesystem \<Rightarrow> error option \<times> filesystem"
  exec_output :: "invocation \<Rightarrow> error + string"

definition print :: "string \<Rightarrow> world \<Rightarrow> world" where
  "print line w = w\<lparr>events := events w @ [Print line]\<rparr>"

text \<open>
  Modelled from the spec: \<^verbatim>\<open>process.run\<close> and \<^verbatim>\<open>process.run_output\<close>, which are
  imported from a module that is not in this file. Each is one external process invocation,
  synchronous; \<^verbatim>\<open>run_output\<close> captures the standard output and returns it; a failure of
  the process propagates as an exception.
\<close>

definition run :: "env \<Rightarrow> invocation \<Rightarrow> world \<Rightarrow> error option \<times> world" where
  "run e iv w =
     (let (r, fs') = exec e iv (fs w)
      in (r, w\<lparr>events := events w @ [Run iv], fs := fs'\<rparr>))"

definition run_output :: "env \<Rightarrow> invocation \<Rightarrow> world \<Rightarrow> (error + string) \<times> world" where
  "run_output e iv w = (exec_output e iv, w\<lparr>events := events w @ [RunOutput iv]\<rparr>)"

section \<open>Regular expressions\<close>

text \<open>
  The part of Python's \<^verbatim>\<open>re\<close> that the module's pattern uses: literal text, the
  classes \<^verbatim>\<open>\s\<close> and \<^verbatim>\<open>\d\<close>, sequence, the greedy \<^verbatim>\<open>+\<close> and a capturing group
  (\<^verbatim>\<open>(?:...)\<close> only brackets, so it has no constructor).
  A text is a list of characters with code points below 256. On these, \<^verbatim>\<open>\d\<close> is
  \<^verbatim>\<open>0\<close> to \<^verbatim>\<open>9\<close> and \<^verbatim>\<open>\s\<close> is the twelve characters of \<open>is_space\<close>.
\<close>

datatype cls = Space | Digit

datatype rexp = Lit string | Class cls | Seq rexp rexp | Plus rexp | Group rexp

definition is_space :: "char \<Rightarrow> bool" where
  "is_space c =
     (let n = (of_char c :: nat)
      in (9 \<le> n \<and> n \<le> 13) \<or> (28 \<le> n \<and> n \<le> 32) \<or> n = 133 \<or> n = 160)"

definition is_digit :: "char \<Rightarrow> bool" where
  "is_digit c = (let n = (of_char c :: nat) in 48 \<le> n \<and> n \<le> 57)"

fun in_cls :: "cls \<Rightarrow> char \<Rightarrow> bool" where
  "in_cls Space c = is_space c"
| "in_cls Digit c = is_digit c"

text \<open>
  \<open>later g1 g2\<close> is the content of the group after two parts of a pattern have matched
  one after the other: the part that matched last wins.
\<close>

fun later :: "string option \<Rightarrow> string option \<Rightarrow> string option" where
  "later g1 None = g1"
| "later g1 (Some v) = Some v"

text \<open>
  \<open>ms r s\<close> lists every way in which \<open>r\<close> matches at the beginning of \<open>s\<close>, as the
  content of the group and the text left over, in the order in which the backtracking
  matcher of \<^verbatim>\<open>re\<close> tries them: a greedy \<^verbatim>\<open>+\<close> tries one more repetition before it
  tries to stop. A repetition that consumed nothing is not repeated.
\<close>

function ms :: "rexp \<Rightarrow> string \<Rightarrow> (string option \<times> string) list" where
  "ms (Lit l) s = (if prefix l s then [(None, drop (length l) s)] else [])"
| "ms (Class c) s =
     (case s of [] \<Rightarrow> [] | x # xs \<Rightarrow> if in_cls c x then [(None, xs)] else [])"
| "ms (Seq r1 r2) s =
     concat (map (\<lambda>(g1, s1). map (\<lambda>(g2, s2). (later g1 g2, s2)) (ms r2 s1)) (ms r1 s))"
| "ms (Plus r) s =
     concat (map (\<lambda>(g1, s1).
        (if length s1 < length s
         then map (\<lambda>(g2, s2). (later g1 g2, s2)) (ms (Plus r) s1) else [])
        @ [(g1, s1)]) (ms r s))"
| "ms (Group r) s = map (\<lambda>(g, s1). (Some (take (length s - length s1) s), s1)) (ms r s)"
  by pat_completeness auto
termination
  by (relation "inv_image (less_than <*lex*> less_than) (\<lambda>(r, s). (size r, length s))") auto

text \<open>
  \<^verbatim>\<open>pattern.match(text)\<close> is the first way of matching at the beginning of the text, or
  \<^verbatim>\<open>None\<close>; \<open>group1\<close> is \<^verbatim>\<open>match.group(1)\<close>.
\<close>

record match =
  group1 :: "string option"
  rest :: string

definition re_match :: "rexp \<Rightarrow> string \<Rightarrow> match option" where
  "re_match r s =
     (case ms r s of [] \<Rightarrow> None | (g, s') # _ \<Rightarrow> Some \<lparr>group1 = g, rest = s'\<rparr>)"

definition startswith :: "string \<Rightarrow> string \<Rightarrow> bool" where
  "startswith s p = prefix p s"

section \<open>The version validator\<close>

definition antlr_req :: string where
  "antlr_req = ''4.11''"

text \<open>
  \<^verbatim>\<open>ANTLR Parser Generator\s+Version\s+((?:\d+\.)+\d+)\<close>
\<close>

definition antlr_version_pattern :: rexp where
  "antlr_version_pattern =
     Seq (Lit ''ANTLR Parser Generator'')
    (Seq (Plus (Class Space))
    (Seq (Lit ''Version'')
    (Seq (Plus (Class Space))
         (Group (Seq (Plus (Seq (Plus (Class Digit)) (Lit ''.''))) (Plus (Class Digit)))))))"

definition not_found_message :: string where
  "not_found_message =
     ''Antlr4 not found! Please install Antlr4 before proceeding: https://antlr.org''"

definition mismatch_message :: "string \<Rightarrow> string \<Rightarrow> string" where
  "mismatch_message req found =
     ''Expected Antlr version '' @ req @ ''.*, but found '' @ found @ ''!''"

text \<open>
  The required version is the module's global \<^verbatim>\<open>antlr_req\<close>; \<open>validate_with\<close> takes it
  as an argument and \<open>validate_antlr_version\<close> is the function of the module.
\<close>

definition probe :: "string option \<Rightarrow> invocation" where
  "probe antlr_v =
     (case antlr_v of
        Some v \<Rightarrow> \<lparr>program = ''antlr4'', arguments = [Str ''-v'', Str v],
                   cwd = None, echo = Some False\<rparr>
      | None \<Rightarrow> \<lparr>program = ''antlr4'', arguments = [], cwd = None, echo = Some False\<rparr>)"

definition validate_with ::
  "string \<Rightarrow> env \<Rightarrow> string option \<Rightarrow> world \<Rightarrow> error option \<times> world" where
  "validate_with req e antlr_v w =
     (case run_output e (probe antlr_v) w of
        (Inl err, w1) \<Rightarrow> (Some err, w1)
      | (Inr antlr_call, w1) \<Rightarrow>
          (case re_match antlr_version_pattern antlr_call of
             None \<Rightarrow> (Some (SystemExit 1), print not_found_message w1)
           | Some m \<Rightarrow>
               (case group1 m of
                  None \<Rightarrow> (Some AttributeError, w1)
                | Some antlr_version \<Rightarrow>
                    if \<not> startswith antlr_version req
                    then (Some (SystemExit 1), print (mismatch_message req antlr_version) w1)
                    else (None, w1))))"

definition validate_antlr_version ::
  "env \<Rightarrow> string option \<Rightarrow> world \<Rightarrow> error option \<times> world" where
  "validate_antlr_version = validate_with antlr_req"

section \<open>The build tool driver\<close>

definition swift_build_args :: "arg list" where
  "swift_build_args = [Str ''-c=release'']"

definition call_swift :: "env \<Rightarrow> arg list \<Rightarrow> world \<Rightarrow> error option \<times> world" where
  "call_swift e args w =
     run e \<lparr>program = ''swift'', arguments = args,
            cwd = Some (grammars_package_path e ''.''), echo = None\<rparr> w"

definition build_swift_gen_transformer :: "env \<Rightarrow> world \<Rightarrow> error option \<times> world" where
  "build_swift_gen_transformer e w = call_swift e ([Str ''build''] @ swift_build_args) w"

definition transform_source :: "env \<Rightarrow> path list \<Rightarrow> world \<Rightarrow> error option \<times> world" where
  "transform_source e swift_files w =
     (let w1 = print ''Transforming source files...'' w
      in call_swift e
           ([Str ''run''] @ swift_build_args @ [Str ''--skip-build'', Str ''AntlrGrammars'']
            @ map PathArg swift_files) w1)"

section \<open>The grammar generator invoker\<close>

subsection \<open>The file operations of \<^verbatim>\<open>pathlib\<close>\<close>

text \<open>
  \<open>fnmatch pat name\<close> matches a file name against a glob pattern in which \<^verbatim>\<open>*\<close> stands
  for any run of characters and every other character for itself (the two patterns of the
  module hold no other wildcard). Names are compared as they are, as on a POSIX system, and
  a leading dot is not special for \<^verbatim>\<open>Path.glob\<close>.
\<close>

fun fnmatch :: "string \<Rightarrow> string \<Rightarrow> bool" where
  "fnmatch [] s = (s = [])"
| "fnmatch (p # ps) s =
     (if p = CHR ''*''
      then fnmatch ps s \<or> (case s of [] \<Rightarrow> False | c # cs \<Rightarrow> fnmatch (p # ps) cs)
      else (case s of [] \<Rightarrow> False | c # cs \<Rightarrow> c = p \<and> fnmatch ps cs))"

text \<open>
  \<^verbatim>\<open>dir.glob(pat)\<close> with a pattern of one component: the children of \<open>dir\<close> whose name
  matches, in the order of the directory. A path that is no directory has no entries.
\<close>

definition glob :: "path \<Rightarrow> string \<Rightarrow> world \<Rightarrow> path list" where
  "glob dir pat w = map (child dir) (filter (fnmatch pat) (map fst (fs w dir)))"

fun is_regular :: "entry \<Rightarrow> bool" where
  "is_regular (Regular c) = True"
| "is_regular Directory = False"
| "is_regular Special = False"

definition regular_in :: "listing \<Rightarrow> string \<Rightarrow> bool" where
  "regular_in l name = (case map_of l name of None \<Rightarrow> False | Some en \<Rightarrow> is_regular en)"

definition is_file :: "path \<Rightarrow> world \<Rightarrow> bool" where
  "is_file p w = (case p of [] \<Rightarrow> False | _ # _ \<Rightarrow> regular_in (fs w (butlast p)) (last p))"

text \<open>
  \<^verbatim>\<open>file.unlink()\<close> takes the entry out of its directory. The module calls it only on a
  path for which \<^verbatim>\<open>is_file()\<close> has just answered true; a deletion that the operating
  system refuses is not part of the model.
\<close>

definition unlink :: "path \<Rightarrow> world \<Rightarrow> world" where
  "unlink p w =
     w\<lparr>fs := (fs w)(butlast p := filter (\<lambda>(name, en). name \<noteq> last p) (fs w (butlast p)))\<rparr>"

subsection \<open>\<^verbatim>\<open>generate_antlr_grammar\<close>\<close>

text \<open>
  The body of each of the two \<^verbatim>\<open>for file in output_path.glob(...)\<close> loops, over the
  paths that the glob has produced.
\<close>

fun remove_loop :: "env \<Rightarrow> path \<Rightarrow> path list \<Rightarrow> world \<Rightarrow> world" where
  "remove_loop e cwd' [] w = w"
| "remove_loop e cwd' (file # files) w =
     remove_loop e cwd' files
       (if is_file file w
        then print (''Removed '' @ str_path (make_relative e cwd' file)) (unlink file w)
        else w)"

definition antlr_args :: "path list \<Rightarrow> path \<Rightarrow> string option \<Rightarrow> arg list" where
  "antlr_args normalized_paths rel_output_path antlr_v =
     (let args = [Str ''-Dlanguage=Swift'', Str ''-visitor''] @ map PathArg normalized_paths
                 @ [Str ''-o'', Str (str_path rel_output_path), Str ''-Xexact-output-dir'']
      in case antlr_v of None \<Rightarrow> args | Some v \<Rightarrow> [Str ''-v'', Str v] @ args)"

definition generate_antlr_grammar ::
  "env \<Rightarrow> path \<Rightarrow> path list \<Rightarrow> string option \<Rightarrow> world \<Rightarrow> error option \<times> world" where
  "generate_antlr_grammar e output_path files antlr_v w =
     (let cwd' = current_dir w;
          normalized_paths = map (\<lambda>path. make_relative e cwd' path) files;
          rel_output_path = make_relative e cwd' output_path;
          w1 = print (''Generating Antlr grammar files to '' @ str_path rel_output_path @ ''...'') w;
          args = antlr_args normalized_paths rel_output_path antlr_v
      in case run e \<lparr>program = ''antlr4'', arguments = args, cwd = None, echo = None\<rparr> w1 of
           (Some err, w2) \<Rightarrow> (Some err, w2)
         | (None, w2) \<Rightarrow>
             (let w3 = print (''Removing extraneous generated files in ''
                              @ str_path rel_output_path @ ''...'') w2;
                  w4 = remove_loop e cwd' (glob output_path ''*.interp'' w3) w3;
                  w5 = remove_loop e cwd' (glob output_path ''*.tokens'' w4) w4
              in (None, w5)))"

section \<open>Observations and specifications\<close>

text \<open>The processes that a trace of events has started, in order.\<close>

fun started :: "event list \<Rightarrow> invocation list" where
  "started [] = []"
| "started (Print line # es) = started es"
| "started (Run iv # es) = iv # started es"
| "started (RunOutput iv # es) = iv # started es"

text \<open>
  The words that a pattern matches, independently of the matcher: \<open>plus_lang A\<close> is one or
  more words of \<open>A\<close> in a row.
\<close>

inductive_set plus_lang :: "string set \<Rightarrow> string set" for A :: "string set" where
  once: "w \<in> A \<Longrightarrow> w \<in> plus_lang A"
| again: "u \<in> A \<Longrightarrow> v \<in> plus_lang A \<Longrightarrow> u @ v \<in> plus_lang A"

fun lang :: "rexp \<Rightarrow> string set" where
  "lang (Lit l) = {l}"
| "lang (Class c) = {[x] | x. in_cls c x}"
| "lang (Seq r1 r2) = {u @ v | u v. u \<in> lang r1 \<and> v \<in> lang r2}"
| "lang (Plus r) = plus_lang (lang r)"
| "lang (Group r) = lang r"

text \<open>The text begins with a banner: one of its prefixes is a word of the pattern.\<close>

definition banner_at_start :: "string \<Rightarrow> bool" where
  "banner_at_start text = (\<exists>w s'. text = w @ s' \<and> w \<in> lang antlr_version_pattern)"

text \<open>The characters that the words of a pattern are made of.\<close>

fun chars :: "rexp \<Rightarrow> char set" where
  "chars (Lit l) = set l"
| "chars (Class c) = {x. in_cls c x}"
| "chars (Seq r1 r2) = chars r1 \<union> chars r2"
| "chars (Plus r) = chars r"
| "chars (Group r) = chars r"

text \<open>
  What the cleanup has to delete: a regular file whose name ends in one of the two
  suffixes. \<open>regular_names suf l\<close> are the names of the regular files of a directory that
  end in \<open>suf\<close>, in the order of the directory.
\<close>

fun extraneous :: "string \<times> entry \<Rightarrow> bool" where
  "extraneous (name, en) =
     (is_regular en \<and> (suffix ''.interp'' name \<or> suffix ''.tokens'' name))"

definition regular_names :: "string \<Rightarrow> listing \<Rightarrow> string list" where
  "regular_names suf l = map fst (filter (\<lambda>(name, en). suffix suf name \<and> is_regular en) l)"

text \<open>
  The invocation of the generator that \<open>generate_antlr_grammar\<close> is expected to make, the
  confirmation line for one deleted file and the two status lines, for stating the results.
\<close>

definition generator_call :: "env \<Rightarrow> path \<Rightarrow> path list \<Rightarrow> string option \<Rightarrow> world \<Rightarrow> invocation" where
  "generator_call e output_path files antlr_v w =
     \<lparr>program = ''antlr4'',
      arguments =
        (case antlr_v of None \<Rightarrow> [] | Some v \<Rightarrow> [Str ''-v'', Str v])
        @ [Str ''-Dlanguage=Swift'', Str ''-visitor'']
        @ map (\<lambda>p. PathArg (make_relative e (current_dir w) p)) files
        @ [Str ''-o'', Str (str_path (make_relative e (current_dir w) output_path)),
           Str ''-Xexact-output-dir''],
      cwd = None, echo = None\<rparr>"

definition removed_line :: "env \<Rightarrow> path \<Rightarrow> path \<Rightarrow> string \<Rightarrow> event" where
  "removed_line e base dir name =
     Print (''Removed '' @ str_path (make_relative e base (child dir name)))"

definition generating_line :: "env \<Rightarrow> path \<Rightarrow> world \<Rightarrow> event" where
  "generating_line e output_path w =
     Print (''Generating Antlr grammar files to ''
            @ str_path (make_relative e (current_dir w) output_path) @ ''...'')"

definition removing_line :: "env \<Rightarrow> path \<Rightarrow> world \<Rightarrow> event" where
  "removing_line e output_path w =
     Print (''Removing extraneous generated files in ''
            @ str_path (make_relative e (current_dir w) output_path) @ ''...'')"

subsection \<open>A concrete environment\<close>

text \<open>
  An installation whose generator prints \<open>banner\<close> and whose tools succeed and write
  nothing; \<^verbatim>\<open>make_relative\<close> strips the working directory from a path below it.
\<close>

definition env0 :: "string \<Rightarrow> env" where
  "env0 banner =
     \<lparr>make_relative = (\<lambda>base p. if prefix base p then drop (length base) p else p),
      grammars_package_path = (\<lambda>sub. [''/'', ''repo'', ''AntlrGrammars'']),
      exec = (\<lambda>iv f. (None, f)),
      exec_output = (\<lambda>iv. Inr banner)\<rparr>"

definition world0 :: world where
  "world0 =
     \<lparr>events = [],
      fs = (\<lambda>p. if p = [''/'', ''repo'', ''out'']
                 then [(''Foo.tokens'', Regular ''t''), (''Foo.interp'', Regular ''i''),
                       (''Foo.swift'', Regular ''s'')]
                 else []),
      current_dir = [''/'', ''repo'']\<rparr>"

section \<open>The matcher and the words of a pattern\<close>

text \<open>
  The matcher finds a match at the beginning of a text exactly when a prefix of the text is
  a word of the pattern. The three lemmas below unfold one step of \<open>ms\<close> as a statement
  about membership.
\<close>

lemma in_ms_Seq:
  "(g, s') \<in> set (ms (Seq r1 r2) s) \<longleftrightarrow>
     (\<exists>g1 s1 g2. (g1, s1) \<in> set (ms r1 s) \<and> (g2, s') \<in> set (ms r2 s1) \<and> g = later g1 g2)"
  by (auto simp del: ms.simps simp add: ms.simps(3) image_iff Bex_def)

lemma in_ms_Plus:
  "(g, s') \<in> set (ms (Plus r) s) \<longleftrightarrow>
     (\<exists>g1 s1. (g1, s1) \<in> set (ms r s) \<and>
        ((length s1 < length s \<and> (\<exists>g2. (g2, s') \<in> set (ms (Plus r) s1) \<and> g = later g1 g2))
         \<or> (g = g1 \<and> s' = s1)))"
  apply (subst ms.simps(4)) by (auto simp del: ms.simps simp add: image_iff Bex_def)

lemma in_ms_Group:
  "(g, s') \<in> set (ms (Group r) s) \<longleftrightarrow>
     (\<exists>g1. (g1, s') \<in> set (ms r s) \<and> g = Some (take (length s - length s') s))"
  by (auto simp del: ms.simps simp add: ms.simps(5) image_iff Bex_def)


lemma ms_sound: "(g, s') \<in> set (ms r s) \<Longrightarrow> \<exists>w. s = w @ s' \<and> w \<in> lang r"
proof (induction r s arbitrary: g s' rule: ms.induct)
  case (1 l s)
  then show ?case by (auto simp: prefix_def split: if_splits)
next
  case (2 c s)
  then show ?case by (auto split: list.splits if_splits)
next
  case (3 r1 r2 s)
  from "3.prems" obtain g1 s1 g2
    where a: "(g1, s1) \<in> set (ms r1 s)" and b: "(g2, s') \<in> set (ms r2 s1)"
    unfolding in_ms_Seq by blast
  from "3.IH"(1)[OF a] obtain u where u: "s = u @ s1" "u \<in> lang r1" by blast
  from "3.IH"(2)[OF a refl b] obtain v where v: "s1 = v @ s'" "v \<in> lang r2" by blast
  from u v show ?case by auto
next
  case (4 r s)
  from "4.prems" obtain g1 s1 where a: "(g1, s1) \<in> set (ms r s)"
    and b: "(length s1 < length s \<and> (\<exists>g2. (g2, s') \<in> set (ms (Plus r) s1))) \<or> s' = s1"
    unfolding in_ms_Plus[of g s' r s] by blast
  from "4.IH"(1)[OF a] obtain u where u: "s = u @ s1" "u \<in> lang r" by blast
  from b show ?case
  proof
    assume "length s1 < length s \<and> (\<exists>g2. (g2, s') \<in> set (ms (Plus r) s1))"
    then obtain g2 where l: "length s1 < length s"
      and m: "(g2, s') \<in> set (ms (Plus r) s1)" by blast
    from "4.IH"(2)[OF a refl l m] obtain v where v: "s1 = v @ s'" "v \<in> lang (Plus r)" by blast
    from u v have "s = (u @ v) @ s'" "u @ v \<in> lang (Plus r)"
      by (simp_all add: plus_lang.again)
    then show ?thesis by blast
  next
    assume "s' = s1"
    with u have "s = u @ s'" "u \<in> lang (Plus r)" by (simp_all add: plus_lang.once)
    then show ?thesis by blast
  qed
next
  case (5 r s)
  from "5.prems" obtain g1 where "(g1, s') \<in> set (ms r s)"
    unfolding in_ms_Group by blast
  from "5.IH"[OF this] show ?case by simp
qed

lemma ms_plus_complete:
  assumes body: "\<And>w s'. w \<in> lang r \<Longrightarrow> \<exists>g. (g, s') \<in> set (ms r (w @ s'))"
  shows "w \<in> plus_lang (lang r) \<Longrightarrow> \<exists>g. (g, s') \<in> set (ms (Plus r) (w @ s'))"
proof (induction rule: plus_lang.induct)
  case (once w)
  from body[OF once] obtain g where "(g, s') \<in> set (ms r (w @ s'))" by blast
  then have "(g, s') \<in> set (ms (Plus r) (w @ s'))"
    unfolding in_ms_Plus[of g s' r "w @ s'"] by blast
  then show ?case by blast
next
  case (again u v)
  from body[OF again.hyps(1), of "v @ s'"]
  obtain g1 where a: "(g1, v @ s') \<in> set (ms r (u @ v @ s'))" by blast
  from again.IH obtain g2 where b: "(g2, s') \<in> set (ms (Plus r) (v @ s'))" by blast
  show ?case
  proof (cases "u = []")
    case True
    with b show ?thesis by (simp del: ms.simps) blast
  next
    case False
    then have "length (v @ s') < length (u @ v @ s')" by simp
    with a b have "(later g1 g2, s') \<in> set (ms (Plus r) (u @ v @ s'))"
      unfolding in_ms_Plus[of "later g1 g2" s' r "u @ v @ s'"] by blast
    then have "(later g1 g2, s') \<in> set (ms (Plus r) ((u @ v) @ s'))"
      by (simp del: ms.simps)
    then show ?thesis by blast
  qed
qed

lemma ms_complete: "w \<in> lang r \<Longrightarrow> \<exists>g. (g, s') \<in> set (ms r (w @ s'))"
proof (induction r arbitrary: w s')
  case (Lit l)
  then show ?case by simp
next
  case (Class c)
  then show ?case by auto
next
  case (Seq r1 r2)
  from Seq.prems obtain u v where w: "w = u @ v" "u \<in> lang r1" "v \<in> lang r2" by auto
  from Seq.IH(1)[OF w(2), of "v @ s'"]
  obtain g1 where a: "(g1, v @ s') \<in> set (ms r1 (u @ v @ s'))" by blast
  from Seq.IH(2)[OF w(3), of s'] obtain g2 where b: "(g2, s') \<in> set (ms r2 (v @ s'))" by blast
  from a b have "(later g1 g2, s') \<in> set (ms (Seq r1 r2) (u @ v @ s'))"
    unfolding in_ms_Seq by blast
  with w(1) have "(later g1 g2, s') \<in> set (ms (Seq r1 r2) (w @ s'))"
    by (simp del: ms.simps)
  then show ?case by blast
next
  case (Plus r)
  have body: "\<And>w s'. w \<in> lang r \<Longrightarrow> \<exists>g. (g, s') \<in> set (ms r (w @ s'))"
    using Plus.IH by blast
  from Plus.prems have "w \<in> plus_lang (lang r)" by simp
  with ms_plus_complete[where r = r and w = w and s' = s', OF body] show ?case by blast
next
  case (Group r)
  from Group.prems have "w \<in> lang r" by simp
  from Group.IH[OF this, of s'] obtain g where "(g, s') \<in> set (ms r (w @ s'))" by blast
  then have "(Some (take (length (w @ s') - length s') (w @ s')), s') \<in> set (ms (Group r) (w @ s'))"
    unfolding in_ms_Group by blast
  then show ?case by blast
qed

lemma re_match_None_iff: "re_match r s = None \<longleftrightarrow> \<not> (\<exists>w s'. s = w @ s' \<and> w \<in> lang r)"
proof
  assume n: "re_match r s = None"
  show "\<not> (\<exists>w s'. s = w @ s' \<and> w \<in> lang r)"
  proof
    assume "\<exists>w s'. s = w @ s' \<and> w \<in> lang r"
    then obtain w s' where "s = w @ s'" "w \<in> lang r" by blast
    with ms_complete[of w r s'] have "ms r s \<noteq> []" by auto
    with n show False by (auto simp: re_match_def split: list.splits)
  qed
next
  assume h: "\<not> (\<exists>w s'. s = w @ s' \<and> w \<in> lang r)"
  have "ms r s = []"
  proof (cases "ms r s")
    case Nil then show ?thesis .
  next
    case (Cons p ps)
    then have "(fst p, snd p) \<in> set (ms r s)" by simp
    from ms_sound[OF this] h show ?thesis by blast
  qed
  then show "re_match r s = None" by (simp add: re_match_def)
qed


lemma banner_at_start_iff:
  "banner_at_start text \<longleftrightarrow> re_match antlr_version_pattern text \<noteq> None"
  by (simp add: banner_at_start_def re_match_None_iff)

text \<open>
  A match of the pattern holds the letter \<^verbatim>\<open>A\<close> at its first position only, so a match
  cannot reach from leading characters into a banner that follows them.
\<close>

lemma plus_lang_chars:
  assumes "\<And>w. w \<in> A \<Longrightarrow> set w \<subseteq> C"
  shows "w \<in> plus_lang A \<Longrightarrow> set w \<subseteq> C"
  by (induction rule: plus_lang.induct) (auto dest: assms)

lemma in_lang_Seq:
  "w \<in> lang (Seq r1 r2) \<Longrightarrow> \<exists>u v. w = u @ v \<and> u \<in> lang r1 \<and> v \<in> lang r2"
  by auto

lemma lang_chars: "w \<in> lang r \<Longrightarrow> set w \<subseteq> chars r"
proof (induction r arbitrary: w)
  case (Lit l)
  then show ?case by simp
next
  case (Class c)
  then show ?case by auto
next
  case (Seq r1 r2)
  from in_lang_Seq[OF Seq.prems] obtain u v
    where "w = u @ v" "u \<in> lang r1" "v \<in> lang r2" by blast
  with Seq.IH(1)[of u] Seq.IH(2)[of v] show ?case by auto
next
  case (Plus r)
  from Plus.prems have "w \<in> plus_lang (lang r)" by simp
  then have "set w \<subseteq> chars r" using Plus.IH by (rule plus_lang_chars[rotated])
  then show ?case by simp
next
  case (Group r)
  then show ?case by simp
qed

lemma banner_shape:
  assumes "w \<in> lang antlr_version_pattern"
  shows "\<exists>v. w = CHR ''A'' # v \<and> CHR ''A'' \<notin> set v"
proof -
  let ?tail = "Seq (Plus (Class Space)) (Seq (Lit ''Version'') (Seq (Plus (Class Space))
         (Group (Seq (Plus (Seq (Plus (Class Digit)) (Lit ''.''))) (Plus (Class Digit))))))"
  from assms have "w \<in> lang (Seq (Lit ''ANTLR Parser Generator'') ?tail)"
    by (simp only: antlr_version_pattern_def)
  from in_lang_Seq[OF this] obtain u v
    where w: "w = u @ v" and u: "u \<in> lang (Lit ''ANTLR Parser Generator'')"
      and v: "v \<in> lang ?tail" by blast
  have "CHR ''A'' \<notin> chars ?tail" by (simp add: is_space_def is_digit_def)
  with lang_chars[OF v] have "CHR ''A'' \<notin> set v" by blast
  with w u show ?thesis by simp
qed

lemma banner_at_start_leading:
  assumes pre: "pre \<noteq> []" and b: "banner \<in> lang antlr_version_pattern"
  shows "banner_at_start (pre @ banner @ post) \<longleftrightarrow> banner_at_start pre"
proof
  assume "banner_at_start pre"
  then obtain w s' where "pre = w @ s'" "w \<in> lang antlr_version_pattern"
    unfolding banner_at_start_def by blast
  then have "pre @ banner @ post = w @ (s' @ banner @ post)" by simp
  with \<open>w \<in> lang antlr_version_pattern\<close> show "banner_at_start (pre @ banner @ post)"
    unfolding banner_at_start_def by blast
next
  assume "banner_at_start (pre @ banner @ post)"
  then obtain w s' where t: "pre @ banner @ post = w @ s'" and w: "w \<in> lang antlr_version_pattern"
    unfolding banner_at_start_def by blast
  from banner_shape[OF w] obtain v where v: "w = CHR ''A'' # v" "CHR ''A'' \<notin> set v" by blast
  from banner_shape[OF b] obtain b' where b': "banner = CHR ''A'' # b'" by blast
  from t consider us where "pre = w @ us" | us where "pre @ us = w" "banner @ post = us @ s'"
    unfolding append_eq_append_conv2 by blast
  then show "banner_at_start pre"
  proof cases
    case 1
    with w show ?thesis unfolding banner_at_start_def by blast
  next
    case 2
    show ?thesis
    proof (cases us)
      case Nil
      with 2 w have "pre = w @ []" by simp
      with w show ?thesis unfolding banner_at_start_def by blast
    next
      case (Cons u us')
      with 2(2) b' have "u = CHR ''A''" by simp
      with Cons 2(1) have "CHR ''A'' \<in> set (tl w)" using pre by (cases pre) auto
      with v show ?thesis by simp
    qed
  qed
qed

section \<open>The version validator: results\<close>

lemma validate_not_found:
  assumes "exec_output e (probe antlr_v) = Inr text"
    and "re_match antlr_version_pattern text = None"
  shows "validate_antlr_version e antlr_v w =
           (Some (SystemExit 1),
            w\<lparr>events := events w @ [RunOutput (probe antlr_v), Print not_found_message]\<rparr>)"
  using assms
  by (simp add: validate_antlr_version_def validate_with_def run_output_def print_def)

lemma validate_found:
  assumes "exec_output e (probe antlr_v) = Inr text"
    and "re_match antlr_version_pattern text = Some m" and "group1 m = Some v"
  shows "validate_with req e antlr_v w =
           (if startswith v req
            then (None, w\<lparr>events := events w @ [RunOutput (probe antlr_v)]\<rparr>)
            else (Some (SystemExit 1),
                  w\<lparr>events := events w @
                     [RunOutput (probe antlr_v), Print (mismatch_message req v)]\<rparr>))"
  using assms by (simp add: validate_with_def run_output_def print_def)

lemma match_empty: "re_match antlr_version_pattern [] = None"
  by (simp add: re_match_def antlr_version_pattern_def)

lemma match_4_10_3:
  "re_match antlr_version_pattern ''ANTLR Parser Generator  Version 4.10.3'' =
     Some \<lparr>group1 = Some ''4.10.3'', rest = []\<rparr>"
  by (simp add: re_match_def antlr_version_pattern_def is_space_def is_digit_def)

lemma match_4_11_1:
  "re_match antlr_version_pattern ''ANTLR Parser Generator  Version 4.11.1'' =
     Some \<lparr>group1 = Some ''4.11.1'', rest = []\<rparr>"
  by (simp add: re_match_def antlr_version_pattern_def is_space_def is_digit_def)

lemma match_4_110_0:
  "re_match antlr_version_pattern ''ANTLR Parser Generator  Version 4.110.0'' =
     Some \<lparr>group1 = Some ''4.110.0'', rest = []\<rparr>"
  by (simp add: re_match_def antlr_version_pattern_def is_space_def is_digit_def)

lemma match_leading_space:
  "re_match antlr_version_pattern '' ANTLR Parser Generator  Version 4.11.1'' = None"
  by (simp add: re_match_def antlr_version_pattern_def)

lemma re_match_Some_lang:
  assumes "re_match r s = Some m" and "rest m = []"
  shows "s \<in> lang r"
proof -
  from assms obtain g ps where "ms r s = (g, []) # ps"
    by (auto simp: re_match_def split: list.splits)
  then have "(g, []) \<in> set (ms r s)" by simp
  from ms_sound[OF this] show ?thesis by simp
qed

lemma validate_not_found_iff:
  assumes "exec_output e (probe antlr_v) = Inr text"
  shows "validate_antlr_version e antlr_v w =
           (Some (SystemExit 1),
            w\<lparr>events := events w @ [RunOutput (probe antlr_v), Print not_found_message]\<rparr>)
         \<longleftrightarrow> \<not> banner_at_start text"
proof (cases "re_match antlr_version_pattern text")
  case None
  with assms show ?thesis
    by (simp add: banner_at_start_iff validate_not_found)
next
  case (Some m)
  let ?nf = "w\<lparr>events := events w @ [RunOutput (probe antlr_v), Print not_found_message]\<rparr>"
  have "events (snd (validate_antlr_version e antlr_v w)) \<noteq> events ?nf"
    using assms Some
    by (cases "group1 m")
       (simp_all add: validate_antlr_version_def validate_with_def run_output_def print_def
          mismatch_message_def not_found_message_def)
  then have "validate_antlr_version e antlr_v w \<noteq> (Some (SystemExit 1), ?nf)"
    by (metis snd_conv)
  with Some show ?thesis by (simp add: banner_at_start_iff)
qed

text \<open>
  C1. The claim: a version that begins with the digits of the required version but goes on
  without a separator, such as 4.110.0 against 4.11, is reported as a mismatch and ends the
  process. The module compares with \<^verbatim>\<open>startswith\<close> only: for the banner of version
  4.110.0 the validator returns normally and prints nothing, although its own diagnostic
  names the expected versions as \<^verbatim>\<open>4.11.*\<close>.
\<close>

theorem validate_accepts_4_110:
  "validate_antlr_version (env0 ''ANTLR Parser Generator  Version 4.110.0'') None world0 =
     (None, world0\<lparr>events := [RunOutput (probe None)]\<rparr>)"
  using validate_found [of "env0 ''ANTLR Parser Generator  Version 4.110.0''" None _ _
      "''4.110.0''" antlr_req world0, OF _ match_4_110_0]
  by (simp add: validate_antlr_version_def antlr_req_def startswith_def env0_def world0_def)

text \<open>
  C3. When the output of the generator does not begin with a banner (no prefix of it is a
  word of the pattern), the validator prints the tool-not-found diagnostic and exits with
  status 1.
\<close>

theorem validate_tool_not_found:
  assumes "exec_output e (probe antlr_v) = Inr text" and "\<not> banner_at_start text"
  shows "validate_antlr_version e antlr_v w =
           (Some (SystemExit 1),
            w\<lparr>events := events w @ [RunOutput (probe antlr_v), Print not_found_message]\<rparr>)"
  using assms by (simp add: banner_at_start_iff validate_not_found)

theorem validate_tool_not_found_witness:
  "exec_output (env0 []) (probe None) = Inr [] \<and> \<not> banner_at_start [] \<and>
   validate_antlr_version (env0 []) None world0 =
     (Some (SystemExit 1),
      world0\<lparr>events := [RunOutput (probe None), Print not_found_message]\<rparr>)"
  using validate_tool_not_found [of "env0 []" None "[]" world0]
  by (simp add: banner_at_start_iff match_empty env0_def world0_def)

text \<open>
  C4. For a banner from which the pattern extracts version 4.10.3, the validator prints a
  diagnostic that names the expected version 4.11.* and the found version 4.10.3, and exits
  with status 1.
\<close>

theorem validate_version_mismatch:
  assumes "exec_output e (probe antlr_v) = Inr text"
    and "re_match antlr_version_pattern text = Some m" and "group1 m = Some ''4.10.3''"
  shows "validate_antlr_version e antlr_v w =
           (Some (SystemExit 1),
            w\<lparr>events := events w @ [RunOutput (probe antlr_v),
               Print ''Expected Antlr version 4.11.*, but found 4.10.3!'']\<rparr>)"
  using validate_found [OF assms, of antlr_req w]
  by (simp add: validate_antlr_version_def antlr_req_def startswith_def mismatch_message_def)

theorem validate_version_mismatch_witness:
  "exec_output (env0 ''ANTLR Parser Generator  Version 4.10.3'') (probe None) =
     Inr ''ANTLR Parser Generator  Version 4.10.3'' \<and>
   re_match antlr_version_pattern ''ANTLR Parser Generator  Version 4.10.3'' =
     Some \<lparr>group1 = Some ''4.10.3'', rest = []\<rparr> \<and>
   validate_antlr_version (env0 ''ANTLR Parser Generator  Version 4.10.3'') None world0 =
     (Some (SystemExit 1),
      world0\<lparr>events := [RunOutput (probe None),
         Print ''Expected Antlr version 4.11.*, but found 4.10.3!'']\<rparr>)"
  using validate_version_mismatch [of "env0 ''ANTLR Parser Generator  Version 4.10.3''" None
      "''ANTLR Parser Generator  Version 4.10.3''" "\<lparr>group1 = Some ''4.10.3'', rest = []\<rparr>" world0]
  by (simp add: match_4_10_3 env0_def world0_def)

text \<open>
  C5. For the banner \<^verbatim>\<open>ANTLR Parser Generator  Version 4.11.1\<close> the validator returns
  normally: it raises nothing and prints nothing; the only event is the probe of the
  generator itself.
\<close>

theorem validate_accepts_4_11_1:
  assumes "exec_output e (probe antlr_v) = Inr ''ANTLR Parser Generator  Version 4.11.1''"
  shows "validate_antlr_version e antlr_v w =
           (None, w\<lparr>events := events w @ [RunOutput (probe antlr_v)]\<rparr>)"
  using validate_found [OF assms match_4_11_1, of "''4.11.1''" antlr_req w]
  by (simp add: validate_antlr_version_def antlr_req_def startswith_def)

theorem validate_accepts_4_11_1_witness:
  "exec_output (env0 ''ANTLR Parser Generator  Version 4.11.1'') (probe (Some ''4.11.1'')) =
     Inr ''ANTLR Parser Generator  Version 4.11.1'' \<and>
   validate_antlr_version (env0 ''ANTLR Parser Generator  Version 4.11.1'') (Some ''4.11.1'') world0 =
     (None, world0\<lparr>events := [RunOutput \<lparr>program = ''antlr4'',
        arguments = [Str ''-v'', Str ''4.11.1''], cwd = None, echo = Some False\<rparr>]\<rparr>)"
  using validate_accepts_4_11_1 [of "env0 ''ANTLR Parser Generator  Version 4.11.1''" "Some ''4.11.1''" world0]
  by (simp add: env0_def world0_def probe_def)

text \<open>
  C8. The banner counts only at the very beginning of the output. When the output holds a
  banner behind leading characters \<open>pre\<close>, the validator answers tool-not-found, with exit
  status 1, and extracts no version; the one exception is that \<open>pre\<close> begins with a
  banner of its own, which is then the banner at the beginning of the output.
\<close>

theorem banner_only_at_start:
  assumes "exec_output e (probe antlr_v) = Inr (pre @ banner @ post)"
    and "banner \<in> lang antlr_version_pattern" and "pre \<noteq> []"
  shows "validate_antlr_version e antlr_v w =
           (Some (SystemExit 1),
            w\<lparr>events := events w @ [RunOutput (probe antlr_v), Print not_found_message]\<rparr>)
         \<longleftrightarrow> \<not> banner_at_start pre"
  using validate_not_found_iff [OF assms(1)] banner_at_start_leading [OF assms(3) assms(2)]
  by simp

theorem banner_only_at_start_witness:
  "exec_output (env0 ('' '' @ ''ANTLR Parser Generator  Version 4.11.1'' @ [])) (probe None) =
     Inr ('' '' @ ''ANTLR Parser Generator  Version 4.11.1'' @ []) \<and>
   ''ANTLR Parser Generator  Version 4.11.1'' \<in> lang antlr_version_pattern \<and>
   '' '' \<noteq> [] \<and> \<not> banner_at_start '' '' \<and>
   validate_antlr_version (env0 ('' '' @ ''ANTLR Parser Generator  Version 4.11.1'' @ []))
       None world0 =
     (Some (SystemExit 1),
      world0\<lparr>events := [RunOutput (probe None), Print not_found_message]\<rparr>)"
proof -
  have b: "''ANTLR Parser Generator  Version 4.11.1'' \<in> lang antlr_version_pattern"
    by (rule re_match_Some_lang [OF match_4_11_1]) simp
  have n: "\<not> banner_at_start '' ''"
    by (simp add: banner_at_start_iff re_match_def antlr_version_pattern_def)
  have x: "exec_output (env0 ('' '' @ ''ANTLR Parser Generator  Version 4.11.1'' @ []))
             (probe None) = Inr ('' '' @ ''ANTLR Parser Generator  Version 4.11.1'' @ [])"
    by (simp add: env0_def)
  have p: "'' '' \<noteq> []" by simp
  from banner_only_at_start [OF x b p, of world0] n b x show ?thesis
    by (simp add: world0_def)
qed

section \<open>The build tool driver and the generator invocation: results\<close>

lemma started_append: "started (xs @ ys) = started xs @ started ys"
  by (induction xs rule: started.induct) simp_all

lemma events_print: "events (print l w) = events w @ [Print l]"
  by (simp add: print_def)

lemma run_events: "events (snd (run e iv w)) = events w @ [Run iv]"
  by (simp add: run_def split_beta)

lemma remove_loop_started: "started (events (remove_loop e c files w)) = started (events w)"
  by (induction files arbitrary: w)
     (simp_all add: print_def unlink_def started_append)

lemma generate_started:
  "started (events (snd (generate_antlr_grammar e output_path files antlr_v w))) =
     started (events w) @ [generator_call e output_path files antlr_v w]"
  by (cases antlr_v)
     (simp_all add: generate_antlr_grammar_def generator_call_def antlr_args_def Let_def
        run_def split_beta print_def started_append remove_loop_started comp_def
        split: option.splits)

text \<open>
  C10. \<open>build_swift_gen_transformer\<close> starts exactly one process and prints nothing: the
  build tool in build mode with the single argument \<^verbatim>\<open>-c=release\<close>, its working
  directory the package path.
\<close>

theorem build_invokes_once:
  "events (snd (build_swift_gen_transformer e w)) =
     events w @ [Run \<lparr>program = ''swift'', arguments = [Str ''build'', Str ''-c=release''],
                      cwd = Some (grammars_package_path e ''.''), echo = None\<rparr>]"
  by (simp add: build_swift_gen_transformer_def call_swift_def swift_build_args_def run_events)

text \<open>
  C7. \<open>transform_source\<close> first prints its status line and then starts the build tool in
  the package path with \<^verbatim>\<open>run\<close>, \<^verbatim>\<open>-c=release\<close>, \<^verbatim>\<open>--skip-build\<close>, the product
  name and the source paths as they were given, in this order.
\<close>

theorem transform_prints_then_runs:
  "events (snd (transform_source e swift_files w)) =
     events w @
       [Print ''Transforming source files...'',
        Run \<lparr>program = ''swift'',
             arguments = [Str ''run'', Str ''-c=release'', Str ''--skip-build'',
                          Str ''AntlrGrammars''] @ map PathArg swift_files,
             cwd = Some (grammars_package_path e ''.''), echo = None\<rparr>]"
  by (simp add: transform_source_def call_swift_def swift_build_args_def run_events
      events_print Let_def)

text \<open>
  C6. \<open>generate_antlr_grammar\<close> starts one process, the generator, with the selector flag
  and its value first when a selector is given, then \<^verbatim>\<open>-Dlanguage=Swift\<close>,
  \<^verbatim>\<open>-visitor\<close>, the input paths made relative to the working directory, \<^verbatim>\<open>-o\<close>, the
  output directory made relative, and \<^verbatim>\<open>-Xexact-output-dir\<close>.
\<close>

theorem generate_argument_order:
  "started (events (snd (generate_antlr_grammar e output_path files antlr_v w))) =
     started (events w) @
       [\<lparr>program = ''antlr4'',
         arguments =
           (case antlr_v of None \<Rightarrow> [] | Some v \<Rightarrow> [Str ''-v'', Str v])
           @ [Str ''-Dlanguage=Swift'', Str ''-visitor'']
           @ map (\<lambda>p. PathArg (make_relative e (current_dir w) p)) files
           @ [Str ''-o'', Str (str_path (make_relative e (current_dir w) output_path)),
              Str ''-Xexact-output-dir''],
         cwd = None, echo = None\<rparr>]"
  by (simp add: generate_started generator_call_def)

text \<open>
  C9. With no input files the generator is still started, with the language flag, the
  visitor flag, \<^verbatim>\<open>-o\<close> with the relative output path and \<^verbatim>\<open>-Xexact-output-dir\<close>, and
  with no positional argument.
\<close>

theorem generate_empty_inputs:
  "started (events (snd (generate_antlr_grammar e output_path [] antlr_v w))) =
     started (events w) @
       [\<lparr>program = ''antlr4'',
         arguments =
           (case antlr_v of None \<Rightarrow> [] | Some v \<Rightarrow> [Str ''-v'', Str v])
           @ [Str ''-Dlanguage=Swift'', Str ''-visitor'', Str ''-o'',
              Str (str_path (make_relative e (current_dir w) output_path)),
              Str ''-Xexact-output-dir''],
         cwd = None, echo = None\<rparr>]"
  by (simp add: generate_started generator_call_def)

section \<open>The cleanup: results\<close>

lemma fnmatch_literal: "CHR ''*'' \<notin> set lit \<Longrightarrow> fnmatch lit s \<longleftrightarrow> s = lit"
proof (induction lit arbitrary: s)
  case Nil
  then show ?case by simp
next
  case (Cons p ps)
  then show ?case by (cases s) auto
qed

lemma fnmatch_star_Nil: "fnmatch (CHR ''*'' # lit) [] = fnmatch lit []"
  by simp

lemma fnmatch_star_Cons:
  "fnmatch (CHR ''*'' # lit) (c # cs) = (fnmatch lit (c # cs) \<or> fnmatch (CHR ''*'' # lit) cs)"
  by simp

lemma fnmatch_star_suffix:
  "CHR ''*'' \<notin> set lit \<Longrightarrow> fnmatch (CHR ''*'' # lit) s \<longleftrightarrow> suffix lit s"
proof (induction s)
  case Nil
  then show ?case by (auto simp del: fnmatch.simps simp add: fnmatch_star_Nil fnmatch_literal)
next
  case (Cons c cs)
  then show ?case
    by (auto simp del: fnmatch.simps simp add: fnmatch_star_Cons fnmatch_literal suffix_Cons)
qed

lemma fnmatch_interp: "fnmatch ''*.interp'' s \<longleftrightarrow> suffix ''.interp'' s"
  by (rule fnmatch_star_suffix) simp

lemma fnmatch_tokens: "fnmatch ''*.tokens'' s \<longleftrightarrow> suffix ''.tokens'' s"
  by (rule fnmatch_star_suffix) simp

lemma suffix_same_length:
  "suffix a s \<Longrightarrow> suffix b s \<Longrightarrow> length a = length b \<Longrightarrow> a = b"
  by (auto simp: suffix_def)

lemma interp_not_tokens: "suffix ''.interp'' s \<Longrightarrow> \<not> suffix ''.tokens'' s"
  using suffix_same_length [of "''.interp''" s "''.tokens''"] by auto

lemma is_file_child: "is_file (child d n) w = regular_in (fs w d) n"
  by (cases d) (simp_all add: is_file_def child_def)

lemma unlink_child:
  "unlink (child d n) w = w\<lparr>fs := (fs w)(d := filter (\<lambda>(name, en). name \<noteq> n) (fs w d))\<rparr>"
  by (simp add: unlink_def child_def)

lemma regular_in_distinct:
  "distinct (map fst l) \<Longrightarrow> (n, en) \<in> set l \<Longrightarrow> regular_in l n = is_regular en"
  by (simp add: regular_in_def)

lemma regular_in_filter_other:
  "m \<noteq> n \<Longrightarrow> regular_in (filter (\<lambda>(name, en). name \<noteq> n) l) m = regular_in l m"
  by (induction l) (auto simp: regular_in_def)

lemma fs_print: "fs (print line w) = fs w"
  by (simp add: print_def)

lemma fs_unlink_child:
  "fs (unlink (child d n) w) = (fs w)(d := filter (\<lambda>(name, en). name \<noteq> n) (fs w d))"
  by (simp add: unlink_child)

lemma events_print_unlink:
  "events (print (''Removed '' @ str_path (make_relative e c (child d n))) (unlink (child d n) w))
     = events w @ [removed_line e c d n]"
  by (simp add: print_def unlink_def removed_line_def)

lemma overwrite_print_unlink:
  "(print line (unlink p w))\<lparr>events := E, fs := F\<rparr> = w\<lparr>events := E, fs := F\<rparr>"
  by (simp add: print_def unlink_def)

lemma remove_loop_children:
  assumes "distinct (map fst (fs w d))" and "distinct names"
  shows "remove_loop e c (map (child d) names) w =
           w\<lparr>events := events w @ map (removed_line e c d) (filter (regular_in (fs w d)) names),
             fs := (fs w)(d := filter (\<lambda>(name, en). \<not> (name \<in> set names \<and> is_regular en))
                                 (fs w d))\<rparr>"
  using assms
proof (induction names arbitrary: w)
  case Nil
  then show ?case by simp
next
  case (Cons n ns)
  let ?l = "fs w d"
  show ?case
  proof (cases "regular_in ?l n")
    case False
    have keep: "filter (\<lambda>(name, en). \<not> (name \<in> set (n # ns) \<and> is_regular en)) ?l
              = filter (\<lambda>(name, en). \<not> (name \<in> set ns \<and> is_regular en)) ?l"
      using False Cons.prems(1)
      by (intro filter_cong refl) (auto simp: regular_in_distinct)
    from False Cons.IH[of w] Cons.prems keep show ?thesis
      by (simp add: is_file_child)
  next
    case True
    let ?w' = "print (''Removed '' @ str_path (make_relative e c (child d n)))
                 (unlink (child d n) w)"
    let ?l' = "filter (\<lambda>(name, en). name \<noteq> n) ?l"
    let ?P = "\<lambda>ns. (\<lambda>(name, en). \<not> (name \<in> set ns \<and> is_regular en))"
    have fs': "fs ?w' = (fs w)(d := ?l')" by (simp add: fs_print fs_unlink_child)
    have l': "fs ?w' d = ?l'" by (simp only: fs' fun_upd_same)
    have d': "distinct (map fst (fs ?w' d))"
      using Cons.prems(1) by (simp only: l') (simp add: distinct_map_filter)
    have other: "\<And>x. x \<in> set ns \<Longrightarrow> x \<noteq> n"
      using Cons.prems(2) by auto
    have regs: "filter (regular_in ?l') ns = filter (regular_in ?l) ns"
      by (intro filter_cong refl) (simp add: regular_in_filter_other other)
    have fl: "filter (?P ns) ?l' = filter (?P (n # ns)) ?l"
      using True Cons.prems(1)
      by (simp only: filter_filter) (intro filter_cong refl, auto simp: regular_in_distinct)
    have ns: "distinct ns" using Cons.prems(2) by simp
    have "remove_loop e c (map (child d) (n # ns)) w = remove_loop e c (map (child d) ns) ?w'"
      using True by (simp add: is_file_child)
    also have "\<dots> = ?w'\<lparr>events := events ?w' @ map (removed_line e c d)
                                   (filter (regular_in (fs ?w' d)) ns),
                           fs := (fs ?w')(d := filter (?P ns) (fs ?w' d))\<rparr>"
      by (rule Cons.IH[OF d' ns])
    also have "\<dots> = w\<lparr>events := (events w @ [removed_line e c d n]) @ map (removed_line e c d)
                                   (filter (regular_in ?l) ns),
                           fs := ((fs w)(d := ?l'))(d := filter (?P (n # ns)) ?l)\<rparr>"
      by (simp only: overwrite_print_unlink events_print_unlink fs' fun_upd_same regs fl)
    also have "\<dots> = w\<lparr>events := events w @ map (removed_line e c d)
                                   (filter (regular_in ?l) (n # ns)),
                           fs := (fs w)(d := filter (?P (n # ns)) ?l)\<rparr>"
      using True by simp
    finally show ?thesis .
  qed
qed

lemma regular_names_glob:
  assumes d: "distinct (map fst l)" and q: "\<And>s. Q s \<longleftrightarrow> suffix suf s"
  shows "filter (regular_in l) (filter Q (map fst l)) = regular_names suf l"
proof -
  have eq: "(Q (fst x) \<and> regular_in l (fst x))
            = (case x of (name, en) \<Rightarrow> suffix suf name \<and> is_regular en)"
    if "x \<in> set l" for x
  proof -
    obtain name en where x: "x = (name, en)" by (cases x)
    with that d have "regular_in l name = is_regular en"
      by (simp add: regular_in_distinct)
    with x show ?thesis by (simp add: q)
  qed
  have "filter (regular_in l) (filter Q (map fst l))
        = map fst (filter (\<lambda>x. Q (fst x) \<and> regular_in l (fst x)) l)"
    by (simp add: filter_map comp_def)
  also have "\<dots> = map fst (filter (\<lambda>(name, en). suffix suf name \<and> is_regular en) l)"
    using eq by (simp cong: filter_cong)
  finally show ?thesis by (simp add: regular_names_def)
qed

lemma cleanup_pass:
  assumes d: "distinct (map fst (fs w d))" and star: "CHR ''*'' \<notin> set suf"
  shows "remove_loop e c (glob d (CHR ''*'' # suf) w) w =
           w\<lparr>events := events w @ map (removed_line e c d) (regular_names suf (fs w d)),
             fs := (fs w)(d := filter (\<lambda>(name, en). \<not> (suffix suf name \<and> is_regular en))
                                 (fs w d))\<rparr>"
proof -
  let ?l = "fs w d"
  let ?names = "filter (fnmatch (CHR ''*'' # suf)) (map fst ?l)"
  have q: "\<And>s. fnmatch (CHR ''*'' # suf) s \<longleftrightarrow> suffix suf s"
    using star by (rule fnmatch_star_suffix)
  have dn: "distinct ?names" using d by (rule distinct_filter)
  have a: "filter (regular_in ?l) ?names = regular_names suf ?l"
    using d q by (rule regular_names_glob)
  have b: "filter (\<lambda>(name, en). \<not> (name \<in> set ?names \<and> is_regular en)) ?l
         = filter (\<lambda>(name, en). \<not> (suffix suf name \<and> is_regular en)) ?l"
  proof (intro filter_cong refl)
    fix x assume x: "x \<in> set ?l"
    obtain name en where ne: "x = (name, en)" by (cases x)
    from x ne have "name \<in> fst ` set ?l" by force
    then have "name \<in> set ?names \<longleftrightarrow> suffix suf name"
      by (simp del: fnmatch.simps add: q)
    with ne show "(case x of (name, en) \<Rightarrow> \<not> (name \<in> set ?names \<and> is_regular en))
                = (case x of (name, en) \<Rightarrow> \<not> (suffix suf name \<and> is_regular en))"
      by (simp del: fnmatch.simps set_filter)
  qed
  have "remove_loop e c (glob d (CHR ''*'' # suf) w) w
        = remove_loop e c (map (child d) ?names) w"
    by (simp only: glob_def)
  also have "\<dots> = w\<lparr>events := events w @ map (removed_line e c d) (filter (regular_in ?l) ?names),
             fs := (fs w)(d := filter (\<lambda>(name, en). \<not> (name \<in> set ?names \<and> is_regular en)) ?l)\<rparr>"
    using d dn by (rule remove_loop_children)
  finally show ?thesis by (simp only: a b)
qed

lemma regular_names_after_interp:
  "regular_names ''.tokens''
     (filter (\<lambda>(name, en). \<not> (suffix ''.interp'' name \<and> is_regular en)) l)
   = regular_names ''.tokens'' l"
proof -
  have "filter (\<lambda>x. (case x of (name, en) \<Rightarrow> \<not> (suffix ''.interp'' name \<and> is_regular en)) \<and>
                     (case x of (name, en) \<Rightarrow> suffix ''.tokens'' name \<and> is_regular en)) l
        = filter (\<lambda>(name, en). suffix ''.tokens'' name \<and> is_regular en) l"
    by (intro filter_cong refl) (auto dest: interp_not_tokens)
  then show ?thesis by (simp add: regular_names_def)
qed

lemma extraneous_two_passes:
  "filter (\<lambda>(name, en). \<not> (suffix ''.tokens'' name \<and> is_regular en))
     (filter (\<lambda>(name, en). \<not> (suffix ''.interp'' name \<and> is_regular en)) l)
   = filter (\<lambda>ne. \<not> extraneous ne) l"
  by (simp only: filter_filter) (intro filter_cong refl, auto)

lemma generator_call_args:
  "\<lparr>program = ''antlr4'',
    arguments = antlr_args (map (\<lambda>path. make_relative e (current_dir w) path) files)
                  (make_relative e (current_dir w) output_path) antlr_v,
    cwd = None, echo = None\<rparr> = generator_call e output_path files antlr_v w"
  by (cases antlr_v) (simp_all add: antlr_args_def generator_call_def comp_def)

lemma generate_unfold:
  assumes ok: "exec e (generator_call e output_path files antlr_v w) (fs w) = (None, f)"
  shows "generate_antlr_grammar e output_path files antlr_v w =
           (let w3 = w\<lparr>fs := f,
                         events := events w @ [generating_line e output_path w,
                                   Run (generator_call e output_path files antlr_v w),
                                   removing_line e output_path w]\<rparr>;
                w4 = remove_loop e (current_dir w) (glob output_path ''*.interp'' w3) w3
            in (None, remove_loop e (current_dir w) (glob output_path ''*.tokens'' w4) w4))"
  using ok
  by (simp add: generate_antlr_grammar_def Let_def run_def generator_call_args print_def
      generating_line_def removing_line_def)

text \<open>
  C2. When the generator has succeeded and left the file system \<open>f\<close>, in which the names of
  the output directory are distinct, \<open>generate_antlr_grammar\<close> returns normally; the output
  directory then holds the entries of \<open>f\<close> that are not regular files ending in
  \<^verbatim>\<open>.interp\<close> or \<^verbatim>\<open>.tokens\<close>, unchanged and in their order; every other directory
  is as in \<open>f\<close>; and one confirmation line has been printed for each deleted file, the
  \<^verbatim>\<open>.interp\<close> files first. The witness is the directory with \<^verbatim>\<open>Foo.tokens\<close>,
  \<^verbatim>\<open>Foo.interp\<close> and \<^verbatim>\<open>Foo.swift\<close>, of which only \<^verbatim>\<open>Foo.swift\<close> remains.
\<close>

theorem cleanup_removes_extraneous:
  assumes ok: "exec e (generator_call e output_path files antlr_v w) (fs w) = (None, f)"
    and d: "distinct (map fst (f output_path))"
  shows "generate_antlr_grammar e output_path files antlr_v w =
     (None,
      w\<lparr>events := events w @
           [generating_line e output_path w,
            Run (generator_call e output_path files antlr_v w),
            removing_line e output_path w]
           @ map (removed_line e (current_dir w) output_path)
               (regular_names ''.interp'' (f output_path))
           @ map (removed_line e (current_dir w) output_path)
               (regular_names ''.tokens'' (f output_path)),
         fs := f(output_path := filter (\<lambda>ne. \<not> extraneous ne) (f output_path))\<rparr>)"
proof -
  let ?c = "current_dir w"
  let ?l = "f output_path"
  let ?E = "events w @ [generating_line e output_path w,
                        Run (generator_call e output_path files antlr_v w),
                        removing_line e output_path w]"
  let ?l1 = "filter (\<lambda>(name, en). \<not> (suffix ''.interp'' name \<and> is_regular en)) ?l"
  let ?w3 = "w\<lparr>fs := f, events := ?E\<rparr>"
  let ?w4 = "w\<lparr>events := ?E @ map (removed_line e ?c output_path) (regular_names ''.interp'' ?l),
               fs := f(output_path := ?l1)\<rparr>"
  have d3: "distinct (map fst (fs ?w3 output_path))" using d by simp
  have p1: "remove_loop e ?c (glob output_path ''*.interp'' ?w3) ?w3 = ?w4"
    using cleanup_pass [OF d3, of "''.interp''" e ?c] by simp
  have d4: "distinct (map fst (fs ?w4 output_path))"
    using d by (simp add: distinct_map_filter)
  have p2: "remove_loop e ?c (glob output_path ''*.tokens'' ?w4) ?w4 =
        w\<lparr>events := (?E @ map (removed_line e ?c output_path) (regular_names ''.interp'' ?l))
                      @ map (removed_line e ?c output_path) (regular_names ''.tokens'' ?l1),
          fs := f(output_path :=
                    filter (\<lambda>(name, en). \<not> (suffix ''.tokens'' name \<and> is_regular en)) ?l1)\<rparr>"
    using cleanup_pass [OF d4, of "''.tokens''" e ?c] by simp
  have "generate_antlr_grammar e output_path files antlr_v w =
          (None, remove_loop e ?c (glob output_path ''*.tokens'' ?w4) ?w4)"
    by (simp only: generate_unfold [OF ok] Let_def p1)
  also have "\<dots> = (None,
        w\<lparr>events := (?E @ map (removed_line e ?c output_path) (regular_names ''.interp'' ?l))
                      @ map (removed_line e ?c output_path) (regular_names ''.tokens'' ?l1),
          fs := f(output_path :=
                    filter (\<lambda>(name, en). \<not> (suffix ''.tokens'' name \<and> is_regular en)) ?l1)\<rparr>)"
    by (simp only: p2)
  finally show ?thesis
    by (simp only: regular_names_after_interp extraneous_two_passes append_assoc)
qed

theorem cleanup_removes_extraneous_witness:
  "exec (env0 []) (generator_call (env0 []) [''/'', ''repo'', ''out'']
       [[''/'', ''repo'', ''Foo.g4'']] None world0) (fs world0) = (None, fs world0) \<and>
   distinct (map fst (fs world0 [''/'', ''repo'', ''out''])) \<and>
   generate_antlr_grammar (env0 []) [''/'', ''repo'', ''out''] [[''/'', ''repo'', ''Foo.g4'']]
       None world0 =
     (None,
      world0\<lparr>events :=
          [Print ''Generating Antlr grammar files to out...'',
           Run \<lparr>program = ''antlr4'',
                arguments = [Str ''-Dlanguage=Swift'', Str ''-visitor'', PathArg [''Foo.g4''],
                             Str ''-o'', Str ''out'', Str ''-Xexact-output-dir''],
                cwd = None, echo = None\<rparr>,
           Print ''Removing extraneous generated files in out...'',
           Print ''Removed out/Foo.interp'',
           Print ''Removed out/Foo.tokens''],
        fs := (fs world0)([''/'', ''repo'', ''out''] := [(''Foo.swift'', Regular ''s'')])\<rparr>)"
  using cleanup_removes_extraneous [of "env0 []" "[''/'', ''repo'', ''out'']"
      "[[''/'', ''repo'', ''Foo.g4'']]" None world0 "fs world0"]
  by (simp add: env0_def world0_def generator_call_def regular_names_def removed_line_def
      generating_line_def removing_line_def str_path_def child_def suffix_to_prefix)

end
